theory Spec2Isabelle
  imports Main "HOL-Library.Sublist"
begin

section \<open>Data model\<close>

text \<open>
  An \<open>EDISegment\<close> as the parser produces it: the leading tag, the raw segment text and
  the source line number. JavaScript strings are modelled as \<open>string\<close>; string
  equality (\<open>===\<close>, \<open>!==\<close>) is equality of the character sequences.
\<close>

record ediSegment =
  tag :: string
  raw :: string
  lineNumber :: nat

text \<open>The result of \<open>parseEDIContent\<close>: the detected file type and the ordered segments.\<close>

record parsedFile =
  fileType :: string
  segments :: "ediSegment list"

text \<open>An uploaded file (\<open>EDIFile\<close> of the index page); only \<open>content\<close> is read by the diff.\<close>

record ediFile =
  fileId :: string
  fileName :: string
  content :: string

datatype diffType = Added | Removed | Modified | Unchanged

text \<open>
  \<open>ComparisonLine\<close> of the comparison view. An optional field that is \<open>undefined\<close>
  is \<open>None\<close>.
\<close>

record comparisonLine =
  leftSegment :: "ediSegment option"
  rightSegment :: "ediSegment option"
  diffType :: diffType
  leftLineNumber :: "nat option"
  rightLineNumber :: "nat option"

text \<open>\<open>DiffSegment\<close> of the animated view; its field \<open>type\<close> is \<open>dtype\<close> here.\<close>

record diffSegment =
  dtype :: diffType
  leftTag :: "string option"
  rightTag :: "string option"
  leftContent :: "string option"
  rightContent :: "string option"
  index :: nat

text \<open>
  Reading \<open>xs[i]\<close> from a JavaScript array: an index past the end gives \<open>undefined\<close>,
  never an error. The arrays here are the dense segment arrays returned by the parser.
\<close>

definition at_index :: "'a list \<Rightarrow> nat \<Rightarrow> 'a option" where
  "at_index xs i = (if i < length xs then Some (xs ! i) else None)"

section \<open>The diff of the comparison view\<close>

text \<open>
  The body of the \<open>for\<close> loop of \<open>comparisonData\<close>. A segment is an object, so it is
  truthy exactly when it is present; the three tests of the source are kept in order, and
  \<open>diffType\<close> starts as \<open>unchanged\<close>.
\<close>

definition lineDiffType :: "ediSegment option \<Rightarrow> ediSegment option \<Rightarrow> diffType" where
  "lineDiffType leftSeg rightSeg =
     (if leftSeg = None \<and> rightSeg \<noteq> None then Added
      else if leftSeg \<noteq> None \<and> rightSeg = None then Removed
      else if leftSeg \<noteq> None \<and> rightSeg \<noteq> None then
        (if raw (the leftSeg) \<noteq> raw (the rightSeg) then Modified else Unchanged)
      else Unchanged)"

definition comparisonLineAt :: "ediSegment list \<Rightarrow> ediSegment list \<Rightarrow> nat \<Rightarrow> comparisonLine" where
  "comparisonLineAt leftSegs rightSegs i =
     (let leftSeg = at_index leftSegs i; rightSeg = at_index rightSegs i in
      \<lparr> leftSegment = leftSeg,
        rightSegment = rightSeg,
        diffType = lineDiffType leftSeg rightSeg,
        leftLineNumber = map_option lineNumber leftSeg,
        rightLineNumber = map_option lineNumber rightSeg \<rparr>)"

text \<open>The loop \<open>for (let i = 0; i < maxLength; i++) comparison.push(...)\<close>.\<close>

function comparisonLoop ::
  "nat \<Rightarrow> nat \<Rightarrow> ediSegment list \<Rightarrow> ediSegment list \<Rightarrow> comparisonLine list \<Rightarrow> comparisonLine list"
where
  "comparisonLoop i maxLength leftSegs rightSegs comparison =
     (if i < maxLength
      then comparisonLoop (Suc i) maxLength leftSegs rightSegs
             (comparison @ [comparisonLineAt leftSegs rightSegs i])
      else comparison)"
  by pat_completeness auto
termination
  by (relation "measure (\<lambda>(i, maxLength, _). maxLength - i)") auto

declare comparisonLoop.simps [simp del]

text \<open>The comparison of two segment sequences (the part of \<open>comparisonData\<close> after parsing).\<close>

definition compareSegments :: "ediSegment list \<Rightarrow> ediSegment list \<Rightarrow> comparisonLine list" where
  "compareSegments leftSegs rightSegs =
     comparisonLoop 0 (max (length leftSegs) (length rightSegs)) leftSegs rightSegs []"

text \<open>
  \<open>comparisonData\<close> itself: an unselected file gives the empty comparison. The parser
  \<open>parseEDIContent\<close> lives outside the diff and is a parameter.
\<close>

definition comparisonData ::
  "(string \<Rightarrow> parsedFile) \<Rightarrow> ediFile option \<Rightarrow> ediFile option \<Rightarrow> comparisonLine list" where
  "comparisonData parseEDIContent leftFile rightFile =
     (case (leftFile, rightFile) of
        (Some lf, Some rf) \<Rightarrow>
          compareSegments (segments (parseEDIContent (content lf)))
                          (segments (parseEDIContent (content rf)))
      | _ \<Rightarrow> [])"

section \<open>The diff of the animated view\<close>

text \<open>
  The body of the loop of \<open>AnimatedEDIDiff\<close>: one of four records is pushed; when
  neither side is present nothing is pushed.
\<close>

definition diffSegmentAt :: "ediSegment list \<Rightarrow> ediSegment list \<Rightarrow> nat \<Rightarrow> diffSegment list" where
  "diffSegmentAt leftSegs rightSegs i =
     (case (at_index leftSegs i, at_index rightSegs i) of
        (None, Some rightSeg) \<Rightarrow>
          [\<lparr> dtype = Added, leftTag = None, rightTag = Some (tag rightSeg),
             leftContent = None, rightContent = Some (raw rightSeg), index = i \<rparr>]
      | (Some leftSeg, None) \<Rightarrow>
          [\<lparr> dtype = Removed, leftTag = Some (tag leftSeg), rightTag = None,
             leftContent = Some (raw leftSeg), rightContent = None, index = i \<rparr>]
      | (Some leftSeg, Some rightSeg) \<Rightarrow>
          (if raw leftSeg = raw rightSeg
           then [\<lparr> dtype = Unchanged, leftTag = Some (tag leftSeg), rightTag = Some (tag rightSeg),
                   leftContent = Some (raw leftSeg), rightContent = Some (raw rightSeg), index = i \<rparr>]
           else [\<lparr> dtype = Modified, leftTag = Some (tag leftSeg), rightTag = Some (tag rightSeg),
                   leftContent = Some (raw leftSeg), rightContent = Some (raw rightSeg), index = i \<rparr>])
      | (None, None) \<Rightarrow> [])"

function diffLoop ::
  "nat \<Rightarrow> nat \<Rightarrow> ediSegment list \<Rightarrow> ediSegment list \<Rightarrow> diffSegment list \<Rightarrow> diffSegment list"
where
  "diffLoop i maxLength leftSegs rightSegs diffs =
     (if i < maxLength
      then diffLoop (Suc i) maxLength leftSegs rightSegs (diffs @ diffSegmentAt leftSegs rightSegs i)
      else diffs)"
  by pat_completeness auto
termination
  by (relation "measure (\<lambda>(i, maxLength, _). maxLength - i)") auto

declare diffLoop.simps [simp del]

definition diffSegmentsOf :: "ediSegment list \<Rightarrow> ediSegment list \<Rightarrow> diffSegment list" where
  "diffSegmentsOf leftSegs rightSegs =
     diffLoop 0 (max (length leftSegs) (length rightSegs)) leftSegs rightSegs []"

text \<open>The effect of \<open>AnimatedEDIDiff\<close>: the value given to \<open>setDiffSegments\<close>.\<close>

definition animatedDiffSegments ::
  "(string \<Rightarrow> parsedFile) \<Rightarrow> ediFile option \<Rightarrow> ediFile option \<Rightarrow> diffSegment list" where
  "animatedDiffSegments parseEDIContent leftFile rightFile =
     (case (leftFile, rightFile) of
        (Some lf, Some rf) \<Rightarrow>
          diffSegmentsOf (segments (parseEDIContent (content lf)))
                         (segments (parseEDIContent (content rf)))
      | _ \<Rightarrow> [])"

section \<open>Statistics\<close>

record diffCounts =
  added :: nat
  removed :: nat
  modified :: nat
  unchanged :: nat

text \<open>\<open>stats[line.diffType]++\<close>.\<close>

fun bumpStat :: "diffType \<Rightarrow> diffCounts \<Rightarrow> diffCounts" where
  "bumpStat Added st = st\<lparr> added := added st + 1 \<rparr>"
| "bumpStat Removed st = st\<lparr> removed := removed st + 1 \<rparr>"
| "bumpStat Modified st = st\<lparr> modified := modified st + 1 \<rparr>"
| "bumpStat Unchanged st = st\<lparr> unchanged := unchanged st + 1 \<rparr>"

text \<open>
  \<open>diffStats\<close> of the comparison view: a \<open>forEach\<close> over the whole comparison, starting
  from four zero counts.
\<close>

definition diffStats :: "comparisonLine list \<Rightarrow> diffCounts" where
  "diffStats comparison =
     fold (\<lambda>line st. bumpStat (diffType line) st) comparison
       \<lparr> added = 0, removed = 0, modified = 0, unchanged = 0 \<rparr>"

text \<open>
  \<open>stats\<close> of the animated view: the length of the entry list and four
  \<open>filter(...).length\<close> counts.
\<close>

record animatedCounts = diffCounts +
  total :: nat

definition animatedStats :: "diffSegment list \<Rightarrow> animatedCounts" where
  "animatedStats diffs =
     \<lparr> added = length (filter (\<lambda>d. dtype d = Added) diffs),
       removed = length (filter (\<lambda>d. dtype d = Removed) diffs),
       modified = length (filter (\<lambda>d. dtype d = Modified) diffs),
       unchanged = length (filter (\<lambda>d. dtype d = Unchanged) diffs),
       total = length diffs \<rparr>"

text \<open>The sum of the four counts of either record.\<close>

definition statsTotal :: "'a diffCounts_scheme \<Rightarrow> nat" where
  "statsTotal st = added st + removed st + modified st + unchanged st"

section \<open>Filtering in the comparison view\<close>

text \<open>
  \<open>String.prototype.toLowerCase\<close> belongs to the JavaScript runtime, not to this
  program: it lowers every cased letter of Unicode, the accented ones too, and not always letter
  by letter. The functions below take it as the parameter \<open>toLowerCase\<close>,
  any function from strings to strings, so what is proved of them holds of the runtime's
  conversion whatever it does to a given text.
\<close>

text \<open>\<open>s.includes(t)\<close>: \<open>t\<close> occurs in \<open>s\<close> at some position.\<close>

fun stringIncludes :: "string \<Rightarrow> string \<Rightarrow> bool" where
  "stringIncludes [] t = (t = [])"
| "stringIncludes (c # cs) t = (prefix t (c # cs) \<or> stringIncludes cs t)"

text \<open>
  One disjunct of the search callback, such as
  \<open>line.leftSegment?.raw.toLowerCase().includes(searchTerm.toLowerCase())\<close>: on an absent
  segment the optional chain is \<open>undefined\<close>, which counts as false.
\<close>

definition fieldIncludes ::
  "(string \<Rightarrow> string) \<Rightarrow> (ediSegment \<Rightarrow> string) \<Rightarrow> ediSegment option \<Rightarrow> string \<Rightarrow> bool" where
  "fieldIncludes toLowerCase field segment searchTerm =
     (case segment of
        None \<Rightarrow> False
      | Some s \<Rightarrow> stringIncludes (toLowerCase (field s)) (toLowerCase searchTerm))"

definition searchMatches :: "(string \<Rightarrow> string) \<Rightarrow> string \<Rightarrow> comparisonLine \<Rightarrow> bool" where
  "searchMatches toLowerCase searchTerm line =
     (fieldIncludes toLowerCase raw (leftSegment line) searchTerm \<or>
      fieldIncludes toLowerCase raw (rightSegment line) searchTerm \<or>
      fieldIncludes toLowerCase tag (leftSegment line) searchTerm \<or>
      fieldIncludes toLowerCase tag (rightSegment line) searchTerm)"

text \<open>
  \<open>filteredComparison\<close>: the two optional \<open>filter\<close> passes, in the order of the source.
  A search string is truthy exactly when it is not empty.
\<close>

definition filteredComparison ::
  "(string \<Rightarrow> string) \<Rightarrow> comparisonLine list \<Rightarrow> string \<Rightarrow> bool \<Rightarrow> comparisonLine list" where
  "filteredComparison toLowerCase comparison searchTerm showOnlyDifferences =
     (let filtered = comparison;
          filtered = (if showOnlyDifferences
                      then filter (\<lambda>line. diffType line \<noteq> Unchanged) filtered
                      else filtered);
          filtered = (if searchTerm \<noteq> []
                      then filter (searchMatches toLowerCase searchTerm) filtered
                      else filtered)
      in filtered)"

text \<open>
  The state of the comparison view (its two \<open>useState\<close> cells) and what one rendering
  derives from the files and that state: the lines shown and the counts shown. The counts
  are tallied from \<open>comparisonData\<close>, the lines from \<open>filteredComparison\<close>.
\<close>

record viewState =
  stSearchTerm :: string
  stShowOnlyDifferences :: bool

record viewOutput =
  shownLines :: "comparisonLine list"
  shownStats :: diffCounts

definition comparisonView ::
  "(string \<Rightarrow> string) \<Rightarrow> (string \<Rightarrow> parsedFile) \<Rightarrow> ediFile option \<Rightarrow> ediFile option \<Rightarrow>
     viewState \<Rightarrow> viewOutput" where
  "comparisonView toLowerCase parseEDIContent leftFile rightFile st =
     (let comparison = comparisonData parseEDIContent leftFile rightFile in
      \<lparr> shownLines =
          filteredComparison toLowerCase comparison (stSearchTerm st) (stShowOnlyDifferences st),
        shownStats = diffStats comparison \<rparr>)"

section \<open>The element classifier\<close>

text \<open>
  A character class of a regular expression is a list of inclusive ranges of character
  codes: \<open>\d\<close> is \<open>0-9\<close>, \<open>[A-Z0-9]\<close> has two ranges and \<open>[\*~]\<close> two one-character
  ranges. A character outside ASCII is in none of them.
\<close>

type_synonym charClass = "(char \<times> char) list"

definition inClass :: "charClass \<Rightarrow> char \<Rightarrow> bool" where
  "inClass k c =
     list_ex (\<lambda>(lo, hi). (of_char lo :: nat) \<le> of_char c \<and> (of_char c :: nat) \<le> of_char hi) k"

definition digitClass :: charClass where
  "digitClass = [(CHR ''0'', CHR ''9'')]"

definition upperDigitClass :: charClass where
  "upperDigitClass = [(CHR ''A'', CHR ''Z''), (CHR ''0'', CHR ''9'')]"

definition delimiterClass :: charClass where
  "delimiterClass = [(CHR ''*'', CHR ''*''), (CHR ''~'', CHR ''~'')]"

text \<open>
  The regular expressions of the classifier, as terms: \<open>Plus r\<close> is \<open>r+\<close>, \<open>Opt r\<close> is
  \<open>(r)?\<close>, \<open>Rep n r\<close> is \<open>r{n}\<close> and \<open>Lit c\<close> an escaped character.
\<close>

datatype regex =
    Fail
  | Eps
  | Cls charClass
  | Seq regex regex
  | Alt regex regex
  | Star regex

definition Plus :: "regex \<Rightarrow> regex" where
  "Plus r = Seq r (Star r)"

definition Opt :: "regex \<Rightarrow> regex" where
  "Opt r = Alt r Eps"

fun Rep :: "nat \<Rightarrow> regex \<Rightarrow> regex" where
  "Rep 0 r = Eps"
| "Rep (Suc n) r = Seq r (Rep n r)"

definition Lit :: "char \<Rightarrow> regex" where
  "Lit c = Cls [(c, c)]"

text \<open>
  \<open>/^r$/.test(s)\<close>: the whole of \<open>s\<close> matches \<open>r\<close>. The test runs the expression over
  the string one character at a time (by derivatives) and asks whether what is left
  accepts the empty string.
\<close>

fun nullable :: "regex \<Rightarrow> bool" where
  "nullable Fail = False"
| "nullable Eps = True"
| "nullable (Cls k) = False"
| "nullable (Seq r s) = (nullable r \<and> nullable s)"
| "nullable (Alt r s) = (nullable r \<or> nullable s)"
| "nullable (Star r) = True"

fun deriv :: "char \<Rightarrow> regex \<Rightarrow> regex" where
  "deriv c Fail = Fail"
| "deriv c Eps = Fail"
| "deriv c (Cls k) = (if inClass k c then Eps else Fail)"
| "deriv c (Seq r s) =
     (if nullable r then Alt (Seq (deriv c r) s) (deriv c s) else Seq (deriv c r) s)"
| "deriv c (Alt r s) = Alt (deriv c r) (deriv c s)"
| "deriv c (Star r) = Seq (deriv c r) (Star r)"

definition regexTest :: "regex \<Rightarrow> string \<Rightarrow> bool" where
  "regexTest r s = nullable (fold deriv s r)"

text \<open>
  \<open>getElementClass\<close>: the three tests in the order of the source, returning the CSS class
  (\<open>edi-date\<close>, \<open>edi-number\<close>, \<open>edi-qualifier\<close>, and \<open>edi-element\<close> for the generic
  category).
\<close>

definition getElementClass :: "string \<Rightarrow> string" where
  "getElementClass element =
     (if regexTest (Rep 8 (Cls digitClass)) element \<or> regexTest (Rep 6 (Cls digitClass)) element
      then ''edi-date''
      else if regexTest (Seq (Plus (Cls digitClass))
                             (Opt (Seq (Lit (CHR ''.'')) (Plus (Cls digitClass))))) element
      then ''edi-number''
      else if length element \<le> 3 \<and> regexTest (Plus (Cls upperDigitClass)) element
      then ''edi-qualifier''
      else ''edi-element'')"

text \<open>
  \<open>s.split(/[\*~]/)\<close>: the pieces between the delimiters, empty pieces kept, so a string
  without delimiter (the empty one too) gives one piece.
\<close>

fun splitOn :: "charClass \<Rightarrow> string \<Rightarrow> string list" where
  "splitOn k [] = [[]]"
| "splitOn k (c # cs) =
     (if inClass k c then [] # splitOn k cs
      else (case splitOn k cs of
              [] \<Rightarrow> [[c]]
            | w # ws \<Rightarrow> (c # w) # ws))"

text \<open>
  The callback of \<open>elements.map\<close> in \<open>highlightSegmentHTML\<close> (its parameter
  \<open>index\<close> is \<open>idx\<close> here), and the joined result.
\<close>

definition highlightElement :: "string \<Rightarrow> nat \<Rightarrow> string" where
  "highlightElement element idx =
     (if idx = 0 then ''<span class=\"edi-segment\">'' @ element @ ''</span>''
      else (let cssClass = getElementClass element in
        ''<span class=\"edi-separator\">*</span><span class=\"'' @ cssClass @ ''\">''
          @ element @ ''</span>''))"

definition highlightSegmentHTML :: "ediSegment \<Rightarrow> string" where
  "highlightSegmentHTML segment =
     (let elements = splitOn delimiterClass (raw segment) in
      concat (map (\<lambda>(idx, element). highlightElement element idx) (enumerate 0 elements)))"

section \<open>Colours\<close>

text \<open>\<open>getDiffClass\<close> of the comparison view: the row class of a line.\<close>

fun getDiffClass :: "diffType \<Rightarrow> string" where
  "getDiffClass Added = ''diff-added''"
| "getDiffClass Removed = ''diff-removed''"
| "getDiffClass Modified = ''diff-modified''"
| "getDiffClass _ = []"

datatype colourFamily = GreenBlue | Red | AmberYellow | NeutralGray

text \<open>
  Modelled from the spec: the stylesheet that gives the row classes \<open>diff-added\<close>,
  \<open>diff-removed\<close> and \<open>diff-modified\<close> their colours is not among the sources. By the
  specification's colour vocabulary the rows of added lines are green/blue, those of
  removed lines red and those of modified lines amber/yellow; a row that gets no diff
  class keeps the neutral colour of the editor. Any other class is not a row class.
\<close>

definition rowClassFamily :: "string \<Rightarrow> colourFamily option" where
  "rowClassFamily cls =
     (if cls = ''diff-added'' then Some GreenBlue
      else if cls = ''diff-removed'' then Some Red
      else if cls = ''diff-modified'' then Some AmberYellow
      else if cls = [] then Some NeutralGray
      else None)"

text \<open>\<open>getDiffColor\<close> of the animated view.\<close>

fun getDiffColor :: "diffType \<Rightarrow> string" where
  "getDiffColor Added = ''bg-blue-50 dark:bg-blue-950 border-blue-200 dark:border-blue-800''"
| "getDiffColor Removed = ''bg-red-50 dark:bg-red-950 border-red-200 dark:border-red-800''"
| "getDiffColor Modified = ''bg-amber-50 dark:bg-amber-950 border-amber-200 dark:border-amber-800''"
| "getDiffColor _ = ''bg-green-50 dark:bg-green-950 border-green-200 dark:border-green-800''"

section \<open>The specification's notions\<close>

text \<open>
  The language of a regular expression, against which the derivative test is checked.
\<close>

inductive_set star :: "string set \<Rightarrow> string set" for A :: "string set" where
  star_empty: "[] \<in> star A"
| star_step: "u \<in> A \<Longrightarrow> v \<in> star A \<Longrightarrow> u @ v \<in> star A"

fun lang :: "regex \<Rightarrow> string set" where
  "lang Fail = {}"
| "lang Eps = {[]}"
| "lang (Cls k) = {[c] | c. inClass k c}"
| "lang (Seq r s) = {u @ v | u v. u \<in> lang r \<and> v \<in> lang s}"
| "lang (Alt r s) = lang r \<union> lang s"
| "lang (Star r) = star (lang r)"

text \<open>The categories of the classifier in the specification's words.\<close>

definition isDigit :: "char \<Rightarrow> bool" where
  "isDigit c = (c \<in> set ''0123456789'')"

definition isUpper :: "char \<Rightarrow> bool" where
  "isUpper c = (c \<in> set ''ABCDEFGHIJKLMNOPQRSTUVWXYZ'')"

text \<open>Exactly 8 or exactly 6 digits.\<close>

definition isDateText :: "string \<Rightarrow> bool" where
  "isDateText s = ((length s = 8 \<or> length s = 6) \<and> list_all isDigit s)"

text \<open>Digits, an optional single \<open>.\<close>, digits; a run of digits has at least one.\<close>

definition isDigits :: "string \<Rightarrow> bool" where
  "isDigits s = (s \<noteq> [] \<and> list_all isDigit s)"

definition isNumberText :: "string \<Rightarrow> bool" where
  "isNumberText s =
     (isDigits s \<or> (\<exists>a b. s = a @ [CHR ''.''] @ b \<and> isDigits a \<and> isDigits b))"

text \<open>Length at most 3, and only uppercase letters and digits.\<close>

definition isQualifierText :: "string \<Rightarrow> bool" where
  "isQualifierText s = (length s \<le> 3 \<and> list_all (\<lambda>c. isUpper c \<or> isDigit c) s)"

text \<open>The classifier as the specification words it: the rules in order, first match wins.\<close>

definition classifyElement_spec :: "string \<Rightarrow> string" where
  "classifyElement_spec element =
     (if isDateText element then ''edi-date''
      else if isNumberText element then ''edi-number''
      else if isQualifierText element then ''edi-qualifier''
      else ''edi-element'')"

text \<open>
  A case-insensitive substring match: once the text and the search string are both put in
  lower case, the search string occurs somewhere in the text.
\<close>

definition containsIgnoringCase :: "(string \<Rightarrow> string) \<Rightarrow> string \<Rightarrow> string \<Rightarrow> bool" where
  "containsIgnoringCase toLowerCase haystack needle =
     (\<exists>before after. toLowerCase haystack = before @ toLowerCase needle @ after)"



text \<open>
  The colour vocabulary for utility classes, which carry the colour in their name: a class
  string belongs to a colour family when it names a colour of that family; a string that
  sets no class at all leaves the element neutral.
\<close>

definition greenClass :: "string \<Rightarrow> bool" where
  "greenClass cls = stringIncludes cls ''green''"

definition greenOrBlueClass :: "string \<Rightarrow> bool" where
  "greenOrBlueClass cls = (stringIncludes cls ''green'' \<or> stringIncludes cls ''blue'')"

definition redClass :: "string \<Rightarrow> bool" where
  "redClass cls = stringIncludes cls ''red''"

definition amberOrYellowClass :: "string \<Rightarrow> bool" where
  "amberOrYellowClass cls = (stringIncludes cls ''amber'' \<or> stringIncludes cls ''yellow'')"

definition neutralOrGrayClass :: "string \<Rightarrow> bool" where
  "neutralOrGrayClass cls =
     (cls = [] \<or> stringIncludes cls ''gray'' \<or> stringIncludes cls ''neutral'' \<or>
      stringIncludes cls ''slate'' \<or> stringIncludes cls ''zinc'' \<or> stringIncludes cls ''stone'')"

section \<open>Example inputs\<close>

definition seg :: "string \<Rightarrow> string \<Rightarrow> nat \<Rightarrow> ediSegment" where
  "seg t r n = \<lparr> tag = t, raw = r, lineNumber = n \<rparr>"

definition exampleLeft :: "ediSegment list" where
  "exampleLeft = [seg ''A'' ''A*1~'' 1, seg ''B'' ''B*2~'' 2]"

definition exampleRight :: "ediSegment list" where
  "exampleRight = [seg ''A'' ''A*1~'' 1, seg ''B'' ''B*3~'' 2, seg ''C'' ''C*4~'' 3]"

definition exampleParse :: "string \<Rightarrow> parsedFile" where
  "exampleParse fileText =
     \<lparr> fileType = ''unknown'',
       segments = (if fileText = ''A*1~B*2~'' then exampleLeft else exampleRight) \<rparr>"

definition exampleLeftFile :: ediFile where
  "exampleLeftFile = \<lparr> fileId = ''1'', fileName = ''left.edi'', content = ''A*1~B*2~'' \<rparr>"

definition exampleRightFile :: ediFile where
  "exampleRightFile = \<lparr> fileId = ''2'', fileName = ''right.edi'', content = ''A*1~B*3~C*4~'' \<rparr>"







definition exampleSegment :: ediSegment where
  "exampleSegment = \<lparr> tag = ''A'', raw = ''A*1~'', lineNumber = 1 \<rparr>"

section \<open>Properties of the two diffs\<close>

lemma comparisonLoop_eq:
  "comparisonLoop i n ls rs acc = acc @ map (comparisonLineAt ls rs) [i..<n]"
proof (induction i n ls rs acc rule: comparisonLoop.induct)
  case (1 i n ls rs acc)
  show ?case
  proof (cases "i < n")
    case True
    then show ?thesis
      using "1.IH" by (subst comparisonLoop.simps) (simp add: upt_conv_Cons)
  next
    case False
    then show ?thesis by (subst comparisonLoop.simps) simp
  qed
qed

lemma compareSegments_eq:
  "compareSegments ls rs = map (comparisonLineAt ls rs) [0..<max (length ls) (length rs)]"
  by (simp add: compareSegments_def comparisonLoop_eq)

lemma length_compareSegments:
  "length (compareSegments ls rs) = max (length ls) (length rs)"
  by (simp add: compareSegments_eq)

lemma nth_compareSegments:
  "i < max (length ls) (length rs) \<Longrightarrow> compareSegments ls rs ! i = comparisonLineAt ls rs i"
  by (simp add: compareSegments_eq)

lemma diffLoop_eq:
  "diffLoop i n ls rs acc = acc @ concat (map (diffSegmentAt ls rs) [i..<n])"
proof (induction i n ls rs acc rule: diffLoop.induct)
  case (1 i n ls rs acc)
  show ?case
  proof (cases "i < n")
    case True
    then show ?thesis
      using "1.IH" by (subst diffLoop.simps) (simp add: upt_conv_Cons)
  next
    case False
    then show ?thesis by (subst diffLoop.simps) simp
  qed
qed

lemma concat_singletons:
  "(\<And>x. x \<in> set xs \<Longrightarrow> length (f x) = 1) \<Longrightarrow> concat (map f xs) = map (\<lambda>x. hd (f x)) xs"
proof (induction xs)
  case Nil
  then show ?case by simp
next
  case (Cons a xs)
  then have "length (f a) = 1" by simp
  then obtain y where "f a = [y]" by (cases "f a") auto
  with Cons show ?case by simp
qed

lemma length_diffSegmentAt:
  "i < max (length ls) (length rs) \<Longrightarrow> length (diffSegmentAt ls rs i) = 1"
  by (auto simp: diffSegmentAt_def at_index_def)

lemma diffSegmentsOf_eq:
  "diffSegmentsOf ls rs = map (\<lambda>i. hd (diffSegmentAt ls rs i)) [0..<max (length ls) (length rs)]"
proof -
  have "concat (map (diffSegmentAt ls rs) [0..<max (length ls) (length rs)]) =
        map (\<lambda>i. hd (diffSegmentAt ls rs i)) [0..<max (length ls) (length rs)]"
    by (rule concat_singletons) (simp add: length_diffSegmentAt)
  then show ?thesis by (simp add: diffSegmentsOf_def diffLoop_eq)
qed

lemma length_diffSegmentsOf:
  "length (diffSegmentsOf ls rs) = max (length ls) (length rs)"
  by (simp add: diffSegmentsOf_eq)

lemma nth_diffSegmentsOf:
  "i < max (length ls) (length rs) \<Longrightarrow> diffSegmentsOf ls rs ! i = hd (diffSegmentAt ls rs i)"
  by (simp add: diffSegmentsOf_eq)

lemma diffType_comparisonLineAt:
  "diffType (comparisonLineAt ls rs i) = lineDiffType (at_index ls i) (at_index rs i)"
  by (simp add: comparisonLineAt_def Let_def)

lemma dtype_diffSegmentAt:
  "i < max (length ls) (length rs) \<Longrightarrow>
   dtype (hd (diffSegmentAt ls rs i)) = lineDiffType (at_index ls i) (at_index rs i)"
  by (auto simp: diffSegmentAt_def lineDiffType_def at_index_def)

lemma lineDiffType_cases:
  "l \<noteq> None \<or> r \<noteq> None \<Longrightarrow>
   (lineDiffType l r = Added \<longleftrightarrow> l = None \<and> r \<noteq> None) \<and>
   (lineDiffType l r = Removed \<longleftrightarrow> l \<noteq> None \<and> r = None) \<and>
   (lineDiffType l r = Modified \<longleftrightarrow> (\<exists>a b. l = Some a \<and> r = Some b \<and> raw a \<noteq> raw b)) \<and>
   (lineDiffType l r = Unchanged \<longleftrightarrow> (\<exists>a b. l = Some a \<and> r = Some b \<and> raw a = raw b))"
  by (cases l; cases r) (auto simp: lineDiffType_def)

text \<open>
  Claim C1. At every index below the longer length, both diffs give \<open>added\<close>
  exactly when only the right segment is present, \<open>removed\<close> exactly when only the left
  one is, \<open>modified\<close> exactly when both are present with different raw text, and
  \<open>unchanged\<close> exactly when both are present with equal raw text.
\<close>

theorem C1_diffType_assignment:
  assumes "i < max (length leftSegs) (length rightSegs)"
  shows "(let l = at_index leftSegs i; r = at_index rightSegs i;
              t = diffType (compareSegments leftSegs rightSegs ! i);
              t' = dtype (diffSegmentsOf leftSegs rightSegs ! i) in
          (t = Added \<longleftrightarrow> l = None \<and> r \<noteq> None) \<and>
          (t = Removed \<longleftrightarrow> l \<noteq> None \<and> r = None) \<and>
          (t = Modified \<longleftrightarrow> (\<exists>a b. l = Some a \<and> r = Some b \<and> raw a \<noteq> raw b)) \<and>
          (t = Unchanged \<longleftrightarrow> (\<exists>a b. l = Some a \<and> r = Some b \<and> raw a = raw b)) \<and>
          t' = t)"
proof -
  have "at_index leftSegs i \<noteq> None \<or> at_index rightSegs i \<noteq> None"
    using assms by (auto simp: at_index_def)
  from lineDiffType_cases [OF this] show ?thesis
    using assms
    by (simp only: Let_def nth_compareSegments nth_diffSegmentsOf diffType_comparisonLineAt
          dtype_diffSegmentAt)
qed

theorem C1_witness:
  "(2::nat) < max (length exampleLeft) (length exampleRight) \<and>
   at_index exampleLeft 2 = None \<and> at_index exampleRight 2 \<noteq> None \<and>
   diffType (compareSegments exampleLeft exampleRight ! 2) = Added \<and>
   dtype (diffSegmentsOf exampleLeft exampleRight ! 2) = Added"
  using C1_diffType_assignment [of 2 exampleLeft exampleRight]
  by (simp add: exampleLeft_def exampleRight_def at_index_def Let_def)

lemmas example_defs =
  exampleLeft_def exampleRight_def seg_def exampleParse_def exampleLeftFile_def exampleRightFile_def

lemma sides_comparisonLineAt:
  "leftSegment (comparisonLineAt ls rs i) = at_index ls i"
  "rightSegment (comparisonLineAt ls rs i) = at_index rs i"
  by (simp_all add: comparisonLineAt_def Let_def)

lemma index_diffSegmentAt:
  "i < max (length ls) (length rs) \<Longrightarrow> index (hd (diffSegmentAt ls rs i)) = i"
  by (auto simp: diffSegmentAt_def at_index_def)

text \<open>
  Claim C2. The comparison has exactly \<open>max (length left) (length right)\<close> lines, line
  \<open>i\<close> holds the segments of index \<open>i\<close> (and the animated entry \<open>i\<close> carries
  \<open>index = i\<close>), and two empty inputs give the empty comparison. The functions are total:
  no branch of the source raises.
\<close>

theorem C2_length_and_order:
  "length (compareSegments leftSegs rightSegs) = max (length leftSegs) (length rightSegs) \<and>
   (\<forall>i < max (length leftSegs) (length rightSegs).
      leftSegment (compareSegments leftSegs rightSegs ! i) = at_index leftSegs i \<and>
      rightSegment (compareSegments leftSegs rightSegs ! i) = at_index rightSegs i) \<and>
   length (diffSegmentsOf leftSegs rightSegs) = max (length leftSegs) (length rightSegs) \<and>
   (\<forall>i < max (length leftSegs) (length rightSegs).
      index (diffSegmentsOf leftSegs rightSegs ! i) = i) \<and>
   compareSegments [] [] = [] \<and> diffSegmentsOf [] [] = []"
  by (simp add: length_compareSegments nth_compareSegments sides_comparisonLineAt
        length_diffSegmentsOf nth_diffSegmentsOf index_diffSegmentAt)
    (simp add: compareSegments_eq diffSegmentsOf_eq)

theorem C2_witness:
  "length (compareSegments exampleLeft exampleRight) = 3 \<and>
   (1::nat) < max (length exampleLeft) (length exampleRight) \<and>
   leftSegment (compareSegments exampleLeft exampleRight ! 1) = Some (seg ''B'' ''B*2~'' 2) \<and>
   rightSegment (compareSegments exampleLeft exampleRight ! 1) = Some (seg ''B'' ''B*3~'' 2) \<and>
   index (diffSegmentsOf exampleLeft exampleRight ! 1) = 1"
  using C2_length_and_order [of exampleLeft exampleRight]
  by (simp add: exampleLeft_def exampleRight_def at_index_def)

text \<open>
  Claim C3. In every line of a comparison exactly one side is absent when the line is
  \<open>added\<close> or \<open>removed\<close>, both sides are present when it is \<open>modified\<close> or
  \<open>unchanged\<close>, and the two sides are never both absent.
\<close>

theorem C3_presence_invariant:
  assumes "line \<in> set (compareSegments leftSegs rightSegs)"
  shows "(diffType line \<in> {Added, Removed} \<longrightarrow>
            (leftSegment line = None) \<noteq> (rightSegment line = None)) \<and>
         (diffType line \<in> {Modified, Unchanged} \<longrightarrow>
            leftSegment line \<noteq> None \<and> rightSegment line \<noteq> None) \<and>
         \<not> (leftSegment line = None \<and> rightSegment line = None)"
proof -
  from assms obtain i where i: "i < max (length leftSegs) (length rightSegs)"
    and line: "line = comparisonLineAt leftSegs rightSegs i"
    by (auto simp: compareSegments_eq)
  from i have present: "at_index leftSegs i \<noteq> None \<or> at_index rightSegs i \<noteq> None"
    by (auto simp: at_index_def)
  show ?thesis
    unfolding line sides_comparisonLineAt diffType_comparisonLineAt
    using present
    by (cases "at_index leftSegs i"; cases "at_index rightSegs i")
       (simp_all add: lineDiffType_def)
qed

theorem C3_witness:
  "compareSegments exampleLeft exampleRight ! 2 \<in> set (compareSegments exampleLeft exampleRight) \<and>
   diffType (compareSegments exampleLeft exampleRight ! 2) = Added \<and>
   leftSegment (compareSegments exampleLeft exampleRight ! 2) = None \<and>
   rightSegment (compareSegments exampleLeft exampleRight ! 2) \<noteq> None"
proof -
  have mem: "compareSegments exampleLeft exampleRight ! 2 \<in> set (compareSegments exampleLeft exampleRight)"
    by (rule nth_mem) (simp add: length_compareSegments example_defs)
  have ty: "diffType (compareSegments exampleLeft exampleRight ! 2) = Added"
    by (simp add: nth_compareSegments diffType_comparisonLineAt lineDiffType_def example_defs at_index_def)
  have l: "leftSegment (compareSegments exampleLeft exampleRight ! 2) = None"
    by (simp add: nth_compareSegments sides_comparisonLineAt example_defs at_index_def)
  from C3_presence_invariant [OF mem] mem ty l show ?thesis by simp
qed

lemma statsTotal_fold:
  "statsTotal (fold (\<lambda>line st. bumpStat (diffType line) st) xs st) = statsTotal st + length xs"
proof (induction xs arbitrary: st)
  case Nil
  then show ?case by simp
next
  case (Cons x xs)
  have "statsTotal (bumpStat (diffType x) st) = Suc (statsTotal st)"
    by (cases "diffType x") (simp_all add: statsTotal_def)
  with Cons show ?case by simp
qed

lemma statsTotal_diffStats: "statsTotal (diffStats xs) = length xs"
  by (simp add: diffStats_def statsTotal_fold) (simp add: statsTotal_def)

lemma statsTotal_animatedStats: "statsTotal (animatedStats ds) = length ds"
proof (induction ds)
  case Nil
  then show ?case by (simp add: statsTotal_def animatedStats_def)
next
  case (Cons d ds)
  then show ?case
    by (cases "dtype d") (simp_all add: statsTotal_def animatedStats_def)
qed

text \<open>
  Claim C4. The four counts tallied over the whole comparison add up to
  \<open>max (length left) (length right)\<close>, in the comparison view and in the animated view.
\<close>

theorem C4_stats_total:
  "statsTotal (diffStats (compareSegments leftSegs rightSegs)) = max (length leftSegs) (length rightSegs) \<and>
   statsTotal (animatedStats (diffSegmentsOf leftSegs rightSegs)) = max (length leftSegs) (length rightSegs)"
  by (simp add: statsTotal_diffStats statsTotal_animatedStats length_compareSegments
        length_diffSegmentsOf)

lemma diffSegmentAt_fields:
  assumes "i < max (length ls) (length rs)"
  shows "leftTag (hd (diffSegmentAt ls rs i)) = map_option tag (at_index ls i)"
    and "rightTag (hd (diffSegmentAt ls rs i)) = map_option tag (at_index rs i)"
    and "leftContent (hd (diffSegmentAt ls rs i)) = map_option raw (at_index ls i)"
    and "rightContent (hd (diffSegmentAt ls rs i)) = map_option raw (at_index rs i)"
  using assms by (auto simp: diffSegmentAt_def at_index_def)

text \<open>
  Claim C6. For every pair of files the animated view's entries and the comparison view's
  lines agree index by index: same length, same type, and the tags and contents of an
  entry are the tag and raw text of the segments present on each side of the line.
\<close>

theorem C6_views_agree:
  "length (animatedDiffSegments parseEDIContent leftFile rightFile) =
     length (comparisonData parseEDIContent leftFile rightFile) \<and>
   (\<forall>i < length (comparisonData parseEDIContent leftFile rightFile).
      let d = animatedDiffSegments parseEDIContent leftFile rightFile ! i;
          c = comparisonData parseEDIContent leftFile rightFile ! i in
      dtype d = diffType c \<and>
      leftTag d = map_option tag (leftSegment c) \<and>
      rightTag d = map_option tag (rightSegment c) \<and>
      leftContent d = map_option raw (leftSegment c) \<and>
      rightContent d = map_option raw (rightSegment c) \<and>
      index d = i)"
proof (cases "leftFile = None \<or> rightFile = None")
  case True
  then show ?thesis
    by (auto simp: animatedDiffSegments_def comparisonData_def split: option.splits)
next
  case False
  then obtain lf rf where files: "leftFile = Some lf" "rightFile = Some rf" by auto
  show ?thesis
    unfolding files animatedDiffSegments_def comparisonData_def
    by (simp add: Let_def length_compareSegments length_diffSegmentsOf nth_compareSegments
          nth_diffSegmentsOf dtype_diffSegmentAt diffType_comparisonLineAt
          sides_comparisonLineAt diffSegmentAt_fields index_diffSegmentAt)
qed

theorem C6_witness:
  "(1::nat) < length (comparisonData exampleParse (Some exampleLeftFile) (Some exampleRightFile)) \<and>
   diffType (comparisonData exampleParse (Some exampleLeftFile) (Some exampleRightFile) ! 1) = Modified \<and>
   dtype (animatedDiffSegments exampleParse (Some exampleLeftFile) (Some exampleRightFile) ! 1) = Modified \<and>
   leftContent (animatedDiffSegments exampleParse (Some exampleLeftFile) (Some exampleRightFile) ! 1) = Some ''B*2~'' \<and>
   rightContent (animatedDiffSegments exampleParse (Some exampleLeftFile) (Some exampleRightFile) ! 1) = Some ''B*3~''"
proof -
  have cmp: "comparisonData exampleParse (Some exampleLeftFile) (Some exampleRightFile) =
             compareSegments exampleLeft exampleRight"
    by (simp add: comparisonData_def exampleParse_def exampleLeftFile_def exampleRightFile_def)
  have len: "(1::nat) < length (compareSegments exampleLeft exampleRight)"
    by (simp add: length_compareSegments exampleLeft_def exampleRight_def)
  have line: "compareSegments exampleLeft exampleRight ! Suc 0 =
     \<lparr> leftSegment = Some (seg ''B'' ''B*2~'' 2), rightSegment = Some (seg ''B'' ''B*3~'' 2),
       diffType = Modified, leftLineNumber = Some 2, rightLineNumber = Some 2 \<rparr>"
    by (simp add: nth_compareSegments comparisonLineAt_def lineDiffType_def at_index_def
          exampleLeft_def exampleRight_def seg_def)
  from C6_views_agree [of exampleParse "Some exampleLeftFile" "Some exampleRightFile"]
  have "\<forall>i < length (compareSegments exampleLeft exampleRight).
      let d = animatedDiffSegments exampleParse (Some exampleLeftFile) (Some exampleRightFile) ! i;
          c = compareSegments exampleLeft exampleRight ! i in
      dtype d = diffType c \<and>
      leftTag d = map_option tag (leftSegment c) \<and>
      rightTag d = map_option tag (rightSegment c) \<and>
      leftContent d = map_option raw (leftSegment c) \<and>
      rightContent d = map_option raw (rightSegment c) \<and>
      index d = i"
    unfolding cmp by (rule conjunct2)
  from this [rule_format, OF len] len show ?thesis
    unfolding cmp by (simp add: line Let_def seg_def)
qed

section \<open>The regular expressions of the classifier\<close>

lemma nullable_lang: "nullable r \<longleftrightarrow> [] \<in> lang r"
  by (induction r) (auto intro: star.intros)

lemma star_Cons:
  "c # s \<in> star A \<longleftrightarrow> (\<exists>u v. s = u @ v \<and> c # u \<in> A \<and> v \<in> star A)"
proof
  assume "c # s \<in> star A"
  then show "\<exists>u v. s = u @ v \<and> c # u \<in> A \<and> v \<in> star A"
  proof (induction "c # s" rule: star.induct)
    case (star_step u v)
    then show ?case by (cases u) auto
  qed
next
  assume "\<exists>u v. s = u @ v \<and> c # u \<in> A \<and> v \<in> star A"
  then obtain u v where "s = u @ v" "c # u \<in> A" "v \<in> star A" by blast
  then show "c # s \<in> star A"
    using star.star_step [of "c # u" A v] by simp
qed

lemma lang_SeqI: "u \<in> lang r \<Longrightarrow> v \<in> lang s \<Longrightarrow> u @ v \<in> lang (Seq r s)"
  by auto

lemma lang_deriv: "s \<in> lang (deriv c r) \<longleftrightarrow> c # s \<in> lang r"
proof (induction r arbitrary: s)
  case (Seq r1 r2)
  show ?case
  proof
    assume "s \<in> lang (deriv c (Seq r1 r2))"
    then consider u v where "s = u @ v" "u \<in> lang (deriv c r1)" "v \<in> lang r2"
      | "nullable r1" "s \<in> lang (deriv c r2)"
      by (auto split: if_splits)
    then show "c # s \<in> lang (Seq r1 r2)"
    proof cases
      case 1
      then have "c # u \<in> lang r1" using Seq by auto
      from lang_SeqI [OF this 1(3)] show ?thesis using 1(1) by simp
    next
      case 2
      then have "[] \<in> lang r1" "c # s \<in> lang r2"
        using Seq by (auto simp: nullable_lang)
      from lang_SeqI [OF this] show ?thesis by simp
    qed
  next
    assume "c # s \<in> lang (Seq r1 r2)"
    then obtain u v where uv: "c # s = u @ v" "u \<in> lang r1" "v \<in> lang r2" by auto
    show "s \<in> lang (deriv c (Seq r1 r2))"
    proof (cases u)
      case Nil
      with uv Seq show ?thesis by (auto simp: nullable_lang)
    next
      case (Cons a u')
      with uv Seq show ?thesis by (auto simp: nullable_lang)
    qed
  qed
next
  case (Star r)
  then show ?case by (auto simp: star_Cons)
qed auto

lemma regexTest_lang: "regexTest r s \<longleftrightarrow> s \<in> lang r"
  unfolding regexTest_def
  by (induction s arbitrary: r) (simp_all add: nullable_lang lang_deriv)

lemma inClass_digit: "inClass digitClass c \<longleftrightarrow> isDigit c"
proof
  assume "isDigit c"
  then show "inClass digitClass c"
    by (auto simp: isDigit_def inClass_def digitClass_def)
next
  assume "inClass digitClass c"
  then have "(of_char c :: nat) \<in> of_char ` set ''0123456789''"
    unfolding inClass_def digitClass_def by simp arith
  then show "isDigit c"
    unfolding isDigit_def by (simp only: inj_image_mem_iff [OF inj_of_char])
qed

lemma inClass_upperDigit: "inClass upperDigitClass c \<longleftrightarrow> isUpper c \<or> isDigit c"
proof
  assume "isUpper c \<or> isDigit c"
  then show "inClass upperDigitClass c"
    by (auto simp: isDigit_def isUpper_def inClass_def upperDigitClass_def)
next
  assume "inClass upperDigitClass c"
  then have "(of_char c :: nat) \<in> of_char ` set ''ABCDEFGHIJKLMNOPQRSTUVWXYZ'' \<or>
             (of_char c :: nat) \<in> of_char ` set ''0123456789''"
    unfolding inClass_def upperDigitClass_def by simp arith
  then show "isUpper c \<or> isDigit c"
    unfolding isDigit_def isUpper_def by (simp only: inj_image_mem_iff [OF inj_of_char])
qed

lemma star_Cls: "star (lang (Cls k)) = {s. list_all (inClass k) s}"
proof (rule set_eqI, rule iffI)
  fix s assume "s \<in> star (lang (Cls k))"
  then show "s \<in> {s. list_all (inClass k) s}"
    by (induction rule: star.induct) auto
next
  fix s assume "s \<in> {s. list_all (inClass k) s}"
  then have "list_all (inClass k) s" by simp
  then show "s \<in> star (lang (Cls k))"
  proof (induction s)
    case Nil
    show ?case by (rule star_empty)
  next
    case (Cons c s)
    then have "[c] \<in> lang (Cls k)" "s \<in> star (lang (Cls k))" by auto
    from star_step [OF this] show ?case by simp
  qed
qed

lemma lang_Seq_Cls:
  "s \<in> lang (Seq (Cls k) r) \<longleftrightarrow> (\<exists>c v. s = c # v \<and> inClass k c \<and> v \<in> lang r)"
proof
  assume "s \<in> lang (Seq (Cls k) r)"
  then show "\<exists>c v. s = c # v \<and> inClass k c \<and> v \<in> lang r" by auto
next
  assume "\<exists>c v. s = c # v \<and> inClass k c \<and> v \<in> lang r"
  then obtain c v where s: "s = c # v" and "inClass k c" and v: "v \<in> lang r" by blast
  then have "[c] \<in> lang (Cls k)" by simp
  from lang_SeqI [OF this v] show "s \<in> lang (Seq (Cls k) r)" by (simp add: s)
qed

lemma lang_Plus_Cls: "s \<in> lang (Plus (Cls k)) \<longleftrightarrow> s \<noteq> [] \<and> list_all (inClass k) s"
  unfolding Plus_def lang_Seq_Cls
  by (cases s) (simp_all add: star_Cls del: lang.simps(3))

lemma lang_Rep_Cls: "s \<in> lang (Rep n (Cls k)) \<longleftrightarrow> length s = n \<and> list_all (inClass k) s"
proof (induction n arbitrary: s)
  case 0
  then show ?case by auto
next
  case (Suc n)
  show ?case
    unfolding Rep.simps lang_Seq_Cls Suc
    by (cases s) auto
qed

lemma list_all_digit: "list_all (inClass digitClass) s = list_all isDigit s"
  by (simp add: list_all_iff inClass_digit)

lemma list_all_upperDigit:
  "list_all (inClass upperDigitClass) s = list_all (\<lambda>c. isUpper c \<or> isDigit c) s"
  by (simp add: list_all_iff inClass_upperDigit)

lemma test_date:
  "regexTest (Rep 8 (Cls digitClass)) s \<or> regexTest (Rep 6 (Cls digitClass)) s \<longleftrightarrow> isDateText s"
  by (auto simp: regexTest_lang lang_Rep_Cls list_all_digit isDateText_def)

lemma lang_Lit: "lang (Lit c) = {[c]}"
  by (auto simp: Lit_def inClass_def)

lemma test_number:
  "regexTest (Seq (Plus (Cls digitClass)) (Opt (Seq (Lit (CHR ''.'')) (Plus (Cls digitClass))))) s
     \<longleftrightarrow> isNumberText s"
proof -
  have digits: "lang (Plus (Cls digitClass)) = {s. isDigits s}"
    by (rule set_eqI) (simp add: lang_Plus_Cls list_all_digit isDigits_def)
  have "lang (Seq (Plus (Cls digitClass)) (Opt (Seq (Lit (CHR ''.'')) (Plus (Cls digitClass))))) =
        {u @ v | u v. isDigits u \<and> (v = [] \<or> (\<exists>b. v = [CHR ''.''] @ b \<and> isDigits b))}"
    unfolding lang.simps Opt_def digits lang_Lit by auto
  also have "\<dots> = {s. isNumberText s}"
    unfolding isNumberText_def by auto
  finally show ?thesis by (simp add: regexTest_lang)
qed

lemma test_qualifier:
  "length s \<le> 3 \<and> regexTest (Plus (Cls upperDigitClass)) s \<longleftrightarrow> s \<noteq> [] \<and> isQualifierText s"
  by (auto simp: regexTest_lang lang_Plus_Cls list_all_upperDigit isQualifierText_def)

text \<open>
  Claim C5, amended. The classifier applies its rules in order, first match wins: the
  date class for exactly 8 or exactly 6 digits; otherwise the number class for digits
  with an optional single \<open>.\<close> followed by digits; otherwise the qualifier class for a
  non-empty element of length at most 3 made of uppercase letters and digits only;
  otherwise the generic class. The four examples of the specification classify as date,
  number, qualifier and generic.
\<close>

theorem C5_classifier_rules:
  "getElementClass element =
     (if isDateText element then ''edi-date''
      else if isNumberText element then ''edi-number''
      else if element \<noteq> [] \<and> isQualifierText element then ''edi-qualifier''
      else ''edi-element'') \<and>
   getElementClass ''20240115'' = ''edi-date'' \<and>
   getElementClass ''123.45'' = ''edi-number'' \<and>
   getElementClass ''HC'' = ''edi-qualifier'' \<and>
   getElementClass ''Acme Health Plan'' = ''edi-element''"
proof -
  have "getElementClass element =
     (if isDateText element then ''edi-date''
      else if isNumberText element then ''edi-number''
      else if element \<noteq> [] \<and> isQualifierText element then ''edi-qualifier''
      else ''edi-element'')"
    unfolding getElementClass_def test_date test_number test_qualifier ..
  moreover have "getElementClass ''20240115'' = ''edi-date''" by code_simp
  moreover have "getElementClass ''123.45'' = ''edi-number''" by code_simp
  moreover have "getElementClass ''HC'' = ''edi-qualifier''" by code_simp
  moreover have "getElementClass ''Acme Health Plan'' = ''edi-element''" by code_simp
  ultimately show ?thesis by blast
qed

text \<open>
  Claim C5 as stated fails at the empty element: it has length at most 3 and consists
  only of uppercase letters and digits, so the rules as worded make it a qualifier, while
  the classifier returns the generic class.
\<close>

theorem C5_counterexample: "getElementClass [] \<noteq> classifyElement_spec []"
proof -
  have "getElementClass [] = ''edi-element''" by code_simp
  moreover have "classifyElement_spec [] = ''edi-qualifier''"
    by (simp add: classifyElement_spec_def isDateText_def isNumberText_def isDigits_def
          isQualifierText_def)
  ultimately show ?thesis by simp
qed

section \<open>Highlighting\<close>

lemma splitOn_nonempty: "splitOn k s \<noteq> []"
  by (induction s) (auto split: list.splits)

lemma splitOn_snoc_delimiter:
  "inClass k d \<Longrightarrow> splitOn k (s @ [d]) = splitOn k s @ [[]]"
proof (induction s)
  case Nil
  then show ?case by simp
next
  case (Cons c s)
  then show ?case
    using splitOn_nonempty [of k s] by (cases "splitOn k s") auto
qed

lemma enumerate_snoc: "enumerate n (xs @ [x]) = enumerate n xs @ [(n + length xs, x)]"
  by (simp add: enumerate_append_eq)

text \<open>
  Claim C10. The classifier gives the empty string the generic class: the wording of the
  qualifier rule holds of it, but the expression of the rule needs one character. So
  highlighting a segment whose raw text ends with \<open>~\<close> ends with a separator and an
  empty element of the generic class.
\<close>

theorem C10_empty_element_generic:
  "getElementClass [] = ''edi-element'' \<and>
   isQualifierText [] \<and> \<not> regexTest (Plus (Cls upperDigitClass)) [] \<and>
   (raw segment = body @ ''~'' \<longrightarrow>
      last (splitOn delimiterClass (raw segment)) = [] \<and>
      (\<exists>html. highlightSegmentHTML segment =
         html @ ''<span class=\"edi-separator\">*</span><span class=\"edi-element\"></span>''))"
proof -
  have empty: "getElementClass [] = ''edi-element''" by code_simp
  have worded: "isQualifierText []" by (simp add: isQualifierText_def)
  have needs_one: "\<not> regexTest (Plus (Cls upperDigitClass)) []" by code_simp
  have delim: "inClass delimiterClass (CHR ''~'')"
    by (simp add: inClass_def delimiterClass_def)
  {
    assume r: "raw segment = body @ ''~''"
    have split: "splitOn delimiterClass (raw segment) = splitOn delimiterClass body @ [[]]"
      unfolding r by (rule splitOn_snoc_delimiter [OF delim])
    have pos: "length (splitOn delimiterClass body) \<noteq> 0"
      using splitOn_nonempty [of delimiterClass body] by simp
    have "highlightSegmentHTML segment =
            concat (map (\<lambda>(idx, element). highlightElement element idx)
                      (enumerate 0 (splitOn delimiterClass body)))
            @ highlightElement [] (length (splitOn delimiterClass body))"
      by (simp add: highlightSegmentHTML_def split enumerate_snoc)
    also have "highlightElement [] (length (splitOn delimiterClass body)) =
            ''<span class=\"edi-separator\">*</span><span class=\"edi-element\"></span>''"
      using pos by (simp add: highlightElement_def empty)
    finally have "\<exists>html. highlightSegmentHTML segment =
         html @ ''<span class=\"edi-separator\">*</span><span class=\"edi-element\"></span>''"
      by blast
    with split have "last (splitOn delimiterClass (raw segment)) = [] \<and>
      (\<exists>html. highlightSegmentHTML segment =
         html @ ''<span class=\"edi-separator\">*</span><span class=\"edi-element\"></span>'')"
      by simp
  }
  with empty worded needs_one show ?thesis by blast
qed

theorem C10_witness:
  "raw exampleSegment = ''A*1'' @ ''~'' \<and>
   last (splitOn delimiterClass (raw exampleSegment)) = [] \<and>
   splitOn delimiterClass (raw exampleSegment) = [''A'', ''1'', []] \<and>
   highlightSegmentHTML exampleSegment =
     ''<span class=\"edi-segment\">A</span><span class=\"edi-separator\">*</span><span class=\"edi-number\">1</span><span class=\"edi-separator\">*</span><span class=\"edi-element\"></span>''"
proof -
  have hyp: "raw exampleSegment = ''A*1'' @ ''~''"
    by (simp add: exampleSegment_def)
  from C10_empty_element_generic [of exampleSegment "''A*1''"] hyp
  have l: "last (splitOn delimiterClass (raw exampleSegment)) = []" by blast
  have s: "splitOn delimiterClass (raw exampleSegment) = [''A'', ''1'', []]" by code_simp
  have h: "highlightSegmentHTML exampleSegment =
     ''<span class=\"edi-segment\">A</span><span class=\"edi-separator\">*</span><span class=\"edi-number\">1</span><span class=\"edi-separator\">*</span><span class=\"edi-element\"></span>''"
    by code_simp
  from hyp l s h show ?thesis by blast
qed

section \<open>Filtering and colours\<close>



text \<open>
  For a conversion that works letter by letter, the match is what one expects: some
  stretch of the text equals the search string up to the case of its letters.
\<close>

lemma same_letters_iff: "list_all2 (\<lambda>x y. f x = f y) a b \<longleftrightarrow> map f a = map f b"
  by (induction a arbitrary: b) (auto simp: list_all2_Cons1)

lemma containsIgnoringCase_letterwise:
  "containsIgnoringCase (map f) h n \<longleftrightarrow>
     (\<exists>before part after. h = before @ part @ after \<and> list_all2 (\<lambda>x y. f x = f y) part n)"
proof
  assume "containsIgnoringCase (map f) h n"
  then obtain p q where "map f h = p @ map f n @ q"
    by (auto simp: containsIgnoringCase_def)
  then have "\<exists>us vs. h = us @ vs \<and> p = map f us \<and> map f n @ q = map f vs"
    by (simp only: map_eq_append_conv)
  then obtain before rest where h: "h = before @ rest"
    and rest: "map f n @ q = map f rest"
    by blast
  from rest have "\<exists>us vs. rest = us @ vs \<and> map f n = map f us \<and> q = map f vs"
    by (simp only: append_eq_map_conv)
  then obtain part after where r: "rest = part @ after" and part: "map f part = map f n"
    by metis
  from part have "list_all2 (\<lambda>x y. f x = f y) part n" by (simp add: same_letters_iff)
  with h r show "\<exists>before part after. h = before @ part @ after \<and>
      list_all2 (\<lambda>x y. f x = f y) part n"
    by blast
next
  assume "\<exists>before part after. h = before @ part @ after \<and> list_all2 (\<lambda>x y. f x = f y) part n"
  then obtain before part after where "h = before @ part @ after" "map f part = map f n"
    by (auto simp: same_letters_iff)
  then have "map f h = map f before @ map f n @ map f after" by simp
  then show "containsIgnoringCase (map f) h n"
    unfolding containsIgnoringCase_def by blast
qed





text \<open>
  Claim C8. Whatever the search string and the toggle, the counts shown are those tallied
  from the unfiltered comparison; two states of the view show the same counts.
\<close>

theorem C8_stats_unfiltered:
  "shownStats (comparisonView toLowerCase parseEDIContent leftFile rightFile st) =
     diffStats (comparisonData parseEDIContent leftFile rightFile) \<and>
   shownStats (comparisonView toLowerCase parseEDIContent leftFile rightFile st) =
     shownStats (comparisonView toLowerCase parseEDIContent leftFile rightFile st')"
  by (simp add: comparisonView_def Let_def)

text \<open>
  Claim C9, amended. \<open>added\<close> maps to a green/blue class, \<open>removed\<close> to a red class and
  \<open>modified\<close> to an amber/yellow class, in the colour function of the comparison view and
  in that of the animated view; \<open>unchanged\<close> maps to a neutral/gray class in the
  comparison view, and to a green class in the animated view.
\<close>

theorem C9_colours_amended:
  "rowClassFamily (getDiffClass Added) = Some GreenBlue \<and>
   rowClassFamily (getDiffClass Removed) = Some Red \<and>
   rowClassFamily (getDiffClass Modified) = Some AmberYellow \<and>
   rowClassFamily (getDiffClass Unchanged) = Some NeutralGray \<and>
   greenOrBlueClass (getDiffColor Added) \<and>
   redClass (getDiffColor Removed) \<and>
   amberOrYellowClass (getDiffColor Modified) \<and>
   greenClass (getDiffColor Unchanged)"
  by code_simp

text \<open>
  Claim C9 as stated fails in the animated view: the class of \<open>unchanged\<close> names no
  neutral or gray colour (it is the green one).
\<close>

theorem C9_counterexample: "\<not> neutralOrGrayClass (getDiffColor Unchanged)"
  by code_simp

end
